theory Spec2Isabelle
  imports Main
begin

section \<open>The bracket balance scripts\<close>

text \<open>
  The repository is four scripts over the same three inputs: the list \<open>lines\<close> of the
  text file and the two integers \<open>start\<close> and \<open>end\<close> (written \<open>stop\<close> below).
  The scripts differ in the two delimiter literals they compare each character with and
  in what they track: \<^verbatim>\<open>count_parens.py\<close> and \<^verbatim>\<open>count_curlies.py\<close> keep
  \<open>count\<close> and \<open>min_count\<close>, \<^verbatim>\<open>count_balance.py\<close> keeps the two nets only, and
  \<^verbatim>\<open>find_unmatched.py\<close> walks backwards with a counter that starts at 1. The
  literals are parameters \<open>open_char\<close> and \<open>close_char\<close> of the loops here, and each
  script is the loop at its own literals. A line is a list of characters; the loops only
  compare a character with the two delimiters, every other character is passed over.
\<close>

subsection \<open>Python's list indexing and \<open>range\<close>\<close>

datatype py_error = IndexError

text \<open>
  \<^verbatim>\<open>lines[idx]\<close>: an index from \<open>-len(lines)\<close> to \<open>-1\<close> counts from the end of the
  list, an index outside \<open>-len(lines) .. len(lines) - 1\<close> raises \<open>IndexError\<close>.
\<close>

definition line_at :: "string list \<Rightarrow> int \<Rightarrow> py_error + string" where
  "line_at lines idx =
     (if 0 \<le> idx then
        (if idx < int (length lines) then Inr (lines ! nat idx) else Inl IndexError)
      else
        (if - int (length lines) \<le> idx then Inr (lines ! nat (int (length lines) + idx))
         else Inl IndexError))"

text \<open>\<^verbatim>\<open>range(start, end)\<close>: \<open>start, start + 1, ..., end - 1\<close>, empty when \<open>end \<le> start\<close>.\<close>

definition py_range :: "int \<Rightarrow> int \<Rightarrow> int list" where
  "py_range start stop = [start..stop - 1]"

text \<open>\<^verbatim>\<open>range(end-1, start-1, -1)\<close>: \<open>end - 1, end - 2, ..., start\<close>.\<close>

definition py_range_down :: "int \<Rightarrow> int \<Rightarrow> int list" where
  "py_range_down start stop = rev [start..stop - 1]"

subsection \<open>\<^verbatim>\<open>count_parens.py\<close> and \<^verbatim>\<open>count_curlies.py\<close>\<close>

record scan_state =
  count :: int
  min_count :: int

text \<open>The body of the inner loop on one character: the \<open>if\<close>/\<open>elif\<close>, then the \<open>min\<close>.\<close>

definition scan_char :: "char \<Rightarrow> char \<Rightarrow> char \<Rightarrow> scan_state \<Rightarrow> scan_state" where
  "scan_char open_char close_char ch s =
     (let c = (if ch = open_char then count s + 1
               else if ch = close_char then count s - 1
               else count s)
      in \<lparr>count = c, min_count = min (min_count s) c\<rparr>)"

text \<open>\<^verbatim>\<open>for ch in line\<close>.\<close>

primrec scan_chars :: "char \<Rightarrow> char \<Rightarrow> string \<Rightarrow> scan_state \<Rightarrow> scan_state" where
  "scan_chars open_char close_char [] s = s"
| "scan_chars open_char close_char (ch # rest) s =
     scan_chars open_char close_char rest (scan_char open_char close_char ch s)"

text \<open>\<^verbatim>\<open>for idx in range(start, end)\<close>, reading \<^verbatim>\<open>lines[idx]\<close> at each turn.\<close>

primrec scan_lines ::
  "char \<Rightarrow> char \<Rightarrow> string list \<Rightarrow> int list \<Rightarrow> scan_state \<Rightarrow> py_error + scan_state" where
  "scan_lines open_char close_char lines [] s = Inr s"
| "scan_lines open_char close_char lines (idx # idxs) s =
     (case line_at lines idx of
        Inl e \<Rightarrow> Inl e
      | Inr line \<Rightarrow> scan_lines open_char close_char lines idxs (scan_chars open_char close_char line s))"

definition count_pair ::
  "char \<Rightarrow> char \<Rightarrow> string list \<Rightarrow> int \<Rightarrow> int \<Rightarrow> py_error + scan_state" where
  "count_pair open_char close_char lines start stop =
     scan_lines open_char close_char lines (py_range start stop) \<lparr>count = 0, min_count = 0\<rparr>"

definition count_parens :: "string list \<Rightarrow> int \<Rightarrow> int \<Rightarrow> py_error + scan_state" where
  "count_parens = count_pair (CHR ''('') (CHR '')'')"

definition count_curlies :: "string list \<Rightarrow> int \<Rightarrow> int \<Rightarrow> py_error + scan_state" where
  "count_curlies = count_pair (CHR ''{'') (CHR ''}'')"

subsection \<open>\<^verbatim>\<open>count_balance.py\<close>\<close>

text \<open>Two passes over the same range, each with one counter and no minimum.\<close>

definition net_char :: "char \<Rightarrow> char \<Rightarrow> char \<Rightarrow> int \<Rightarrow> int" where
  "net_char open_char close_char ch n =
     (if ch = open_char then n + 1 else if ch = close_char then n - 1 else n)"

primrec net_chars :: "char \<Rightarrow> char \<Rightarrow> string \<Rightarrow> int \<Rightarrow> int" where
  "net_chars open_char close_char [] n = n"
| "net_chars open_char close_char (ch # rest) n =
     net_chars open_char close_char rest (net_char open_char close_char ch n)"

primrec net_lines ::
  "char \<Rightarrow> char \<Rightarrow> string list \<Rightarrow> int list \<Rightarrow> int \<Rightarrow> py_error + int" where
  "net_lines open_char close_char lines [] n = Inr n"
| "net_lines open_char close_char lines (idx # idxs) n =
     (case line_at lines idx of
        Inl e \<Rightarrow> Inl e
      | Inr line \<Rightarrow> net_lines open_char close_char lines idxs (net_chars open_char close_char line n))"

text \<open>The result is the pair printed: \<open>paren net\<close>, then \<open>curlies net\<close>.\<close>

definition count_balance :: "string list \<Rightarrow> int \<Rightarrow> int \<Rightarrow> py_error + int \<times> int" where
  "count_balance lines start stop =
     (case net_lines (CHR ''('') (CHR '')'') lines (py_range start stop) 0 of
        Inl e \<Rightarrow> Inl e
      | Inr parens \<Rightarrow>
          (case net_lines (CHR ''{'') (CHR ''}'') lines (py_range start stop) 0 of
             Inl e \<Rightarrow> Inl e
           | Inr curlies \<Rightarrow> Inr (parens, curlies)))"

subsection \<open>\<^verbatim>\<open>find_unmatched.py\<close>\<close>

text \<open>
  The inner loop either leaves through \<^verbatim>\<open>raise SystemExit\<close> (\<open>Found\<close>) or ends with
  the counter it has reached (\<open>Scanning\<close>). The test \<open>count == 0\<close> is made after a
  decrement only.
\<close>

datatype walk = Found | Scanning int

primrec find_chars :: "char \<Rightarrow> char \<Rightarrow> string \<Rightarrow> int \<Rightarrow> walk" where
  "find_chars open_char close_char [] n = Scanning n"
| "find_chars open_char close_char (ch # rest) n =
     (if ch = open_char then
        (if n - 1 = 0 then Found else find_chars open_char close_char rest (n - 1))
      else if ch = close_char then find_chars open_char close_char rest (n + 1)
      else find_chars open_char close_char rest n)"

text \<open>
  The outer loop; \<open>Some idx\<close> is the value of the loop variable when the script leaves
  (the script prints \<open>idx + 1\<close>), \<open>None\<close> is \<^verbatim>\<open>No unmatched { found\<close>.
\<close>

primrec find_lines ::
  "char \<Rightarrow> char \<Rightarrow> string list \<Rightarrow> int list \<Rightarrow> int \<Rightarrow> py_error + int option" where
  "find_lines open_char close_char lines [] n = Inr None"
| "find_lines open_char close_char lines (idx # idxs) n =
     (case line_at lines idx of
        Inl e \<Rightarrow> Inl e
      | Inr line \<Rightarrow>
          (case find_chars open_char close_char (rev line) n of
             Found \<Rightarrow> Inr (Some idx)
           | Scanning n' \<Rightarrow> find_lines open_char close_char lines idxs n'))"

definition find_unmatched_open ::
  "char \<Rightarrow> char \<Rightarrow> string list \<Rightarrow> int \<Rightarrow> int \<Rightarrow> py_error + int option" where
  "find_unmatched_open open_char close_char lines start stop =
     find_lines open_char close_char lines (py_range_down start stop) 1"

definition find_unmatched :: "string list \<Rightarrow> int \<Rightarrow> int \<Rightarrow> py_error + int option" where
  "find_unmatched = find_unmatched_open (CHR ''{'') (CHR ''}'')"

text \<open>What the script prints for a result of the walk.\<close>

datatype message = Unmatched_opened_at_line int | No_unmatched_found

primrec report :: "int option \<Rightarrow> message" where
  "report (Some idx) = Unmatched_opened_at_line (idx + 1)"
| "report None = No_unmatched_found"

subsection \<open>Ranges of the data model\<close>

text \<open>The range invariant: \<open>0 \<le> start \<le> end \<le> length(Document)\<close>.\<close>

definition valid_range :: "string list \<Rightarrow> int \<Rightarrow> int \<Rightarrow> bool" where
  "valid_range lines start stop \<longleftrightarrow> 0 \<le> start \<and> start \<le> stop \<and> stop \<le> int (length lines)"

subsection \<open>Notions the properties are stated with\<close>

text \<open>The number of occurrences of a character in a document.\<close>

definition occurrences :: "string list \<Rightarrow> char \<Rightarrow> int" where
  "occurrences lines ch = int (count_list (concat lines) ch)"

text \<open>
  The first character of the range that is one of the two delimiters, if there is one:
  the first character that a scan of the range does not ignore.
\<close>

definition first_tracked :: "char \<Rightarrow> char \<Rightarrow> string list \<Rightarrow> int \<Rightarrow> int \<Rightarrow> char option" where
  "first_tracked open_char close_char lines start stop =
     (case filter (\<lambda>ch. ch = open_char \<or> ch = close_char)
             (concat (map (\<lambda>idx. lines ! nat idx) [start..stop - 1])) of
        [] \<Rightarrow> None
      | ch # _ \<Rightarrow> Some ch)"

text \<open>
  The reverse scan as the specification words it. The characters of the range are laid
  out in the order of the scan, lines from \<open>end - 1\<close> down to \<open>start\<close> and each line
  from its last character to its first, every character with the index of its line. One
  counter walks along them, down at \<open>open_char\<close> and up at \<open>close_char\<close>, and the walk
  answers with the line of the first character after which the counter is 0, whichever
  way it got there.
\<close>

definition scan_order :: "string list \<Rightarrow> int \<Rightarrow> int \<Rightarrow> (int \<times> char) list" where
  "scan_order lines start stop =
     concat (map (\<lambda>idx. map (Pair idx) (rev (lines ! nat idx))) (rev [start..stop - 1]))"

fun counter_walk :: "char \<Rightarrow> char \<Rightarrow> (int \<times> char) list \<Rightarrow> int \<Rightarrow> int option" where
  "counter_walk open_char close_char [] n = None"
| "counter_walk open_char close_char ((idx, ch) # rest) n =
     (let n' = (if ch = open_char then n - 1 else if ch = close_char then n + 1 else n)
      in if n' = 0 then Some idx else counter_walk open_char close_char rest n')"

definition spec_find_unmatched_open ::
  "char \<Rightarrow> char \<Rightarrow> string list \<Rightarrow> int \<Rightarrow> int \<Rightarrow> int option" where
  "spec_find_unmatched_open open_char close_char lines start stop =
     counter_walk open_char close_char (scan_order lines start stop) 1"

subsection \<open>Auxiliary notions of the proofs\<close>

text \<open>Index lists that the scripts read without an \<open>IndexError\<close> and without wrapping.\<close>

definition in_bounds :: "string list \<Rightarrow> int list \<Rightarrow> bool" where
  "in_bounds lines idxs \<longleftrightarrow> (\<forall>i \<in> set idxs. 0 \<le> i \<and> i < int (length lines))"

definition lines_at :: "string list \<Rightarrow> int list \<Rightarrow> string list" where
  "lines_at lines idxs = map (\<lambda>i. lines ! nat i) idxs"

text \<open>The sum of the nets of the lines at the given indices.\<close>

definition range_net :: "char \<Rightarrow> char \<Rightarrow> string list \<Rightarrow> int list \<Rightarrow> int" where
  "range_net open_char close_char lines idxs =
     sum_list (map (\<lambda>i. net_chars open_char close_char (lines ! nat i) 0) idxs)"

section \<open>Properties\<close>

subsection \<open>Reading inside the bounds\<close>

lemma line_at_valid:
  "0 \<le> idx \<Longrightarrow> idx < int (length lines) \<Longrightarrow> line_at lines idx = Inr (lines ! nat idx)"
  by (simp add: line_at_def)

lemma in_bounds_Cons:
  "in_bounds lines (idx # idxs) \<longleftrightarrow> 0 \<le> idx \<and> idx < int (length lines) \<and> in_bounds lines idxs"
  by (auto simp: in_bounds_def)

lemma in_bounds_upto:
  "0 \<le> start \<Longrightarrow> stop \<le> int (length lines) \<Longrightarrow> in_bounds lines [start..stop - 1]"
  by (auto simp: in_bounds_def)

lemma in_bounds_rev: "in_bounds lines (rev idxs) = in_bounds lines idxs"
  by (simp add: in_bounds_def)

lemma all_lines: "lines_at lines [0..int (length lines) - 1] = lines"
  by (rule nth_equalityI) (simp_all add: lines_at_def)

subsection \<open>Nets\<close>

lemma net_chars_shift: "net_chars oc cc line n = n + net_chars oc cc line 0"
proof (induction line arbitrary: n)
  case Nil
  show ?case by simp
next
  case (Cons ch rest)
  have "net_chars oc cc (ch # rest) n = net_char oc cc ch n + net_chars oc cc rest 0"
    using Cons.IH [of "net_char oc cc ch n"] by simp
  also have "\<dots> = n + (net_char oc cc ch 0 + net_chars oc cc rest 0)"
    by (simp add: net_char_def)
  also have "\<dots> = n + net_chars oc cc (ch # rest) 0"
    using Cons.IH [of "net_char oc cc ch 0"] by simp
  finally show ?case .
qed

lemma net_chars_append:
  "net_chars oc cc (xs @ ys) 0 = net_chars oc cc xs 0 + net_chars oc cc ys 0"
proof -
  have "net_chars oc cc (xs @ ys) n = net_chars oc cc ys (net_chars oc cc xs n)" for n
    by (induction xs arbitrary: n) simp_all
  then show ?thesis
    using net_chars_shift [of oc cc ys "net_chars oc cc xs 0"] by simp
qed

lemma net_chars_rev: "net_chars oc cc (rev line) 0 = net_chars oc cc line 0"
proof (induction line)
  case Nil
  show ?case by simp
next
  case (Cons ch rest)
  have "net_chars oc cc (rev (ch # rest)) 0 = net_chars oc cc rest 0 + net_chars oc cc [ch] 0"
    using Cons.IH by (simp add: net_chars_append)
  also have "\<dots> = net_chars oc cc ([ch] @ rest) 0"
    by (simp only: net_chars_append)
  finally show ?case by simp
qed

lemma net_chars_count_list:
  "oc \<noteq> cc \<Longrightarrow> net_chars oc cc line 0 = int (count_list line oc) - int (count_list line cc)"
proof (induction line)
  case Nil
  show ?case by simp
next
  case (Cons ch rest)
  then show ?case
    using net_chars_shift [of oc cc rest "net_char oc cc ch 0"]
    by (auto simp: net_char_def)
qed

lemma range_net_concat:
  "range_net oc cc lines idxs = net_chars oc cc (concat (lines_at lines idxs)) 0"
  by (induction idxs) (simp_all add: range_net_def lines_at_def net_chars_append)

lemma range_net_append:
  "range_net oc cc lines (xs @ ys) = range_net oc cc lines xs + range_net oc cc lines ys"
  by (simp add: range_net_def)

lemma range_net_rev: "range_net oc cc lines (rev idxs) = range_net oc cc lines idxs"
  by (induction idxs) (simp_all add: range_net_def)

subsection \<open>The forward scan\<close>

lemma count_scan_chars: "count (scan_chars oc cc line s) = net_chars oc cc line (count s)"
  by (induction line arbitrary: s) (simp_all add: scan_char_def net_char_def Let_def)

lemma min_scan_char:
  "min_count s \<le> count s \<Longrightarrow> min_count (scan_char oc cc ch s) \<le> count (scan_char oc cc ch s)"
  "min_count (scan_char oc cc ch s) \<le> min_count s"
  by (simp_all add: scan_char_def Let_def)

lemma min_scan_chars:
  "min_count s \<le> count s \<Longrightarrow> min_count (scan_chars oc cc line s) \<le> count (scan_chars oc cc line s)"
  by (induction line arbitrary: s) (simp_all add: min_scan_char)

lemma min_scan_chars_mono: "min_count (scan_chars oc cc line s) \<le> min_count s"
proof (induction line arbitrary: s)
  case Nil
  show ?case by simp
next
  case (Cons ch rest)
  have "min_count (scan_chars oc cc rest (scan_char oc cc ch s)) \<le> min_count (scan_char oc cc ch s)"
    by (rule Cons.IH)
  also have "\<dots> \<le> min_count s"
    by (rule min_scan_char(2))
  finally show ?case by simp
qed

lemma scan_lines_in_bounds:
  "in_bounds lines idxs \<Longrightarrow>
   \<exists>r. scan_lines oc cc lines idxs s = Inr r \<and>
       count r = count s + range_net oc cc lines idxs \<and>
       (min_count s \<le> count s \<longrightarrow> min_count r \<le> count r) \<and>
       min_count r \<le> min_count s"
proof (induction idxs arbitrary: s)
  case Nil
  show ?case by (simp add: range_net_def)
next
  case (Cons idx idxs)
  let ?line = "lines ! nat idx"
  let ?s = "scan_chars oc cc ?line s"
  from Cons.prems have inb: "in_bounds lines idxs"
    and at: "line_at lines idx = Inr ?line"
    by (simp_all add: in_bounds_Cons line_at_valid)
  from Cons.IH [OF inb, of ?s] obtain r where r: "scan_lines oc cc lines idxs ?s = Inr r"
    "count r = count ?s + range_net oc cc lines idxs"
    "min_count ?s \<le> count ?s \<longrightarrow> min_count r \<le> count r"
    "min_count r \<le> min_count ?s"
    by blast
  have 1: "scan_lines oc cc lines (idx # idxs) s = Inr r"
    using at r(1) by simp
  have 2: "count r = count s + range_net oc cc lines (idx # idxs)"
    using r(2) net_chars_shift [of oc cc ?line "count s"]
    by (simp add: count_scan_chars range_net_def)
  have 3: "min_count s \<le> count s \<longrightarrow> min_count r \<le> count r"
    using r(3) min_scan_chars [of s oc cc ?line] by simp
  have 4: "min_count r \<le> min_count s"
    using r(4) min_scan_chars_mono [of oc cc ?line s] by simp
  from 1 2 3 4 show ?case by blast
qed

lemma count_pair_valid:
  assumes "valid_range lines start stop"
  shows "\<exists>r. count_pair oc cc lines start stop = Inr r \<and>
             count r = range_net oc cc lines [start..stop - 1] \<and>
             min_count r \<le> count r \<and> min_count r \<le> 0"
proof -
  from assms have "in_bounds lines [start..stop - 1]"
    by (simp add: valid_range_def in_bounds_upto)
  from scan_lines_in_bounds [OF this, of oc cc "\<lparr>count = 0, min_count = 0\<rparr>"]
  show ?thesis by (simp add: count_pair_def py_range_def)
qed

subsection \<open>The net of the whole document\<close>

text \<open>
  C1. For every document and every delimiter pair, \<open>count_pair\<close> on the full range
  \<open>(0, len(D))\<close> returns, and the net it returns is the number of occurrences of the
  open delimiter in the document minus the number of occurrences of the close delimiter.
  A delimiter pair is two distinct characters, as \<open>(\<close>, \<open>)\<close> and \<open>{\<close>, \<open>}\<close> of the
  scripts are.
\<close>

theorem count_pair_full_net:
  assumes "open_char \<noteq> close_char"
  shows "\<exists>r. count_pair open_char close_char lines 0 (int (length lines)) = Inr r \<and>
             count r = occurrences lines open_char - occurrences lines close_char"
proof -
  have "valid_range lines 0 (int (length lines))"
    by (simp add: valid_range_def)
  from count_pair_valid [OF this, of open_char close_char]
  obtain r where r: "count_pair open_char close_char lines 0 (int (length lines)) = Inr r"
    "count r = range_net open_char close_char lines [0..int (length lines) - 1]"
    by blast
  have "count r = net_chars open_char close_char (concat lines) 0"
    using r(2) by (simp add: range_net_concat all_lines)
  also have "\<dots> = occurrences lines open_char - occurrences lines close_char"
    using assms by (simp add: net_chars_count_list occurrences_def)
  finally show ?thesis using r(1) by blast
qed

theorem count_pair_full_net_witness:
  "CHR ''('' \<noteq> CHR '')'' \<and>
   (\<exists>r. count_pair (CHR ''('') (CHR '')'') [''f(x'', ''(y))'', '')''] 0 (int (length [''f(x'', ''(y))'', '')''])) = Inr r \<and>
        count r = occurrences [''f(x'', ''(y))'', '')''] (CHR ''('') - occurrences [''f(x'', ''(y))'', '')''] (CHR '')'')) \<and>
   occurrences [''f(x'', ''(y))'', '')''] (CHR ''('') = 2 \<and>
   occurrences [''f(x'', ''(y))'', '')''] (CHR '')'') = 3"
proof -
  have h: "CHR ''('' \<noteq> CHR '')''" by simp
  have o: "occurrences [''f(x'', ''(y))'', '')''] (CHR ''('') = 2"
    "occurrences [''f(x'', ''(y))'', '')''] (CHR '')'') = 3"
    by (simp_all add: occurrences_def)
  show ?thesis
    using h o count_pair_full_net [OF h, of "[''f(x'', ''(y))'', '')'']"] by simp
qed

subsection \<open>The empty range\<close>

text \<open>
  C5. For every document and delimiter pair, on an empty range (\<open>start = end\<close>)
  \<open>count_pair\<close> returns net 0 and minimum 0, and \<open>find_unmatched_open\<close> returns
  \<open>None\<close>, for which the script prints that no unmatched delimiter was found. No line
  is read, so this holds for every \<open>start\<close>, inside the document or not.
\<close>

theorem empty_range:
  "count_pair open_char close_char lines start start = Inr \<lparr>count = 0, min_count = 0\<rparr> \<and>
   find_unmatched_open open_char close_char lines start start = Inr None \<and>
   report None = No_unmatched_found"
  by (simp add: count_pair_def find_unmatched_open_def py_range_def py_range_down_def)

subsection \<open>The example of the specification\<close>

text \<open>
  C8. For the document with the lines \<open>a(\<close>, \<open>b)\<close>, \<open>c(\<close>, the pair \<open>(\<close>, \<open>)\<close> and
  the range \<open>(0, 3)\<close>, \<open>count_pair\<close> returns net 1 and minimum 0, and
  \<open>find_unmatched_open\<close> stops at the line of index 2, reported as line 3.
\<close>

theorem spec_example:
  "count_pair (CHR ''('') (CHR '')'') [''a('', ''b)'', ''c(''] 0 3 = Inr \<lparr>count = 1, min_count = 0\<rparr> \<and>
   find_unmatched_open (CHR ''('') (CHR '')'') [''a('', ''b)'', ''c(''] 0 3 = Inr (Some 2) \<and>
   report (Some 2) = Unmatched_opened_at_line 3"
  by code_simp

subsection \<open>The minimum\<close>

text \<open>
  C6. For every document, valid range and delimiter pair, \<open>count_pair\<close> returns a result
  whose minimum is at most its net; and when the first character of the range that is
  not ignored is the close delimiter, the minimum is at most 0.
\<close>

theorem min_count_le_net:
  assumes "valid_range lines start stop"
  shows "\<exists>r. count_pair open_char close_char lines start stop = Inr r \<and>
             min_count r \<le> count r \<and>
             (first_tracked open_char close_char lines start stop = Some close_char
                \<longrightarrow> min_count r \<le> 0)"
  using count_pair_valid [OF assms, of open_char close_char] by blast

theorem min_count_le_net_witness:
  "valid_range ['' )('', ''(''] 0 2 \<and>
   first_tracked (CHR ''('') (CHR '')'') ['' )('', ''(''] 0 2 = Some (CHR '')'') \<and>
   (\<exists>r. count_pair (CHR ''('') (CHR '')'') ['' )('', ''(''] 0 2 = Inr r \<and>
        min_count r \<le> count r \<and> min_count r \<le> 0)"
proof -
  have v: "valid_range ['' )('', ''(''] 0 2"
    by (simp add: valid_range_def)
  have f: "first_tracked (CHR ''('') (CHR '')'') ['' )('', ''(''] 0 2 = Some (CHR '')'')"
    by code_simp
  show ?thesis
    using v f min_count_le_net [OF v, of "CHR ''(''" "CHR '')''"] by simp
qed

text \<open>
  C9. For every document, valid range and delimiter pair, the minimum that \<open>count_pair\<close>
  returns is at most 0, also when every tracked character of the range is the open
  delimiter: \<open>min_count\<close> is 0 before the first character and never grows.
\<close>

theorem min_count_nonpositive:
  assumes "valid_range lines start stop"
  shows "\<exists>r. count_pair open_char close_char lines start stop = Inr r \<and> min_count r \<le> 0"
  using count_pair_valid [OF assms, of open_char close_char] by blast

theorem min_count_nonpositive_witness:
  "valid_range [''(('', ''(''] 0 2 \<and>
   count_pair (CHR ''('') (CHR '')'') [''(('', ''(''] 0 2 = Inr \<lparr>count = 3, min_count = 0\<rparr> \<and>
   (\<exists>r. count_pair (CHR ''('') (CHR '')'') [''(('', ''(''] 0 2 = Inr r \<and> min_count r \<le> 0)"
proof -
  have v: "valid_range [''(('', ''(''] 0 2"
    by (simp add: valid_range_def)
  have c: "count_pair (CHR ''('') (CHR '')'') [''(('', ''(''] 0 2 = Inr \<lparr>count = 3, min_count = 0\<rparr>"
    by code_simp
  show ?thesis
    using v c min_count_nonpositive [OF v, of "CHR ''(''" "CHR '')''"] by simp
qed

text \<open>
  When the two delimiters differ and the first tracked character of the range is the close
  delimiter, the counter dips below zero at that character, and the minimum records it.
\<close>

lemma scan_chars_append:
  "scan_chars oc cc (xs @ ys) s = scan_chars oc cc ys (scan_chars oc cc xs s)"
  by (induction xs arbitrary: s) simp_all

lemma scan_lines_concat:
  "in_bounds lines idxs \<Longrightarrow>
   scan_lines oc cc lines idxs s = Inr (scan_chars oc cc (concat (lines_at lines idxs)) s)"
  by (induction idxs arbitrary: s)
    (simp_all add: in_bounds_Cons line_at_valid lines_at_def scan_chars_append)

lemma scan_chars_ignored:
  "\<forall>ch \<in> set chs. \<not> (ch = oc \<or> ch = cc) \<Longrightarrow>
   scan_chars oc cc chs \<lparr>count = 0, min_count = 0\<rparr> = \<lparr>count = 0, min_count = 0\<rparr>"
  by (induction chs) (simp_all add: scan_char_def)

lemma min_count_after_close:
  assumes "valid_range lines start stop" and "oc \<noteq> cc"
    and "first_tracked oc cc lines start stop = Some cc"
  shows "\<exists>r. count_pair oc cc lines start stop = Inr r \<and> min_count r \<le> - 1"
proof -
  let ?chs = "concat (lines_at lines [start..stop - 1])"
  from assms(3) obtain rest where "filter (\<lambda>ch. ch = oc \<or> ch = cc) ?chs = cc # rest"
    by (auto simp: first_tracked_def lines_at_def split: list.splits)
  then obtain pre post where chs: "?chs = pre @ cc # post"
    and pre: "\<forall>ch \<in> set pre. \<not> (ch = oc \<or> ch = cc)"
    unfolding filter_eq_Cons_iff by blast
  from assms(1) have "in_bounds lines [start..stop - 1]"
    by (simp add: valid_range_def in_bounds_upto)
  then have "count_pair oc cc lines start stop =
               Inr (scan_chars oc cc ?chs \<lparr>count = 0, min_count = 0\<rparr>)"
    by (simp add: count_pair_def py_range_def scan_lines_concat)
  also have "scan_chars oc cc ?chs \<lparr>count = 0, min_count = 0\<rparr> =
               scan_chars oc cc post \<lparr>count = - 1, min_count = - 1\<rparr>"
    using assms(2) by (simp add: chs scan_chars_append scan_chars_ignored [OF pre] scan_char_def Let_def)
  finally have "count_pair oc cc lines start stop =
                  Inr (scan_chars oc cc post \<lparr>count = - 1, min_count = - 1\<rparr>)" .
  moreover have "min_count (scan_chars oc cc post \<lparr>count = - 1, min_count = - 1\<rparr>) \<le> - 1"
    using min_scan_chars_mono [of oc cc post "\<lparr>count = - 1, min_count = - 1\<rparr>"] by simp
  ultimately show ?thesis by blast
qed

subsection \<open>Splitting a range\<close>

text \<open>
  C10. For every document, delimiter pair and line indices
  \<open>0 \<le> start \<le> mid \<le> end \<le> len(D)\<close>, the net of \<open>count_pair\<close> over \<open>(start, end)\<close> is
  the net over \<open>(start, mid)\<close> plus the net over \<open>(mid, end)\<close>.
\<close>

theorem net_additive:
  assumes "0 \<le> start" "start \<le> mid" "mid \<le> stop" "stop \<le> int (length lines)"
  shows "\<exists>r r1 r2. count_pair open_char close_char lines start stop = Inr r \<and>
                   count_pair open_char close_char lines start mid = Inr r1 \<and>
                   count_pair open_char close_char lines mid stop = Inr r2 \<and>
                   count r = count r1 + count r2"
proof -
  from assms have v: "valid_range lines start stop" "valid_range lines start mid"
    "valid_range lines mid stop"
    by (simp_all add: valid_range_def)
  have split: "[start..stop - 1] = [start..mid - 1] @ [mid..stop - 1]"
  proof (cases "mid = stop")
    case True
    then show ?thesis by simp
  next
    case False
    with assms have "mid \<le> stop - 1" by simp
    with assms(2) show ?thesis by (rule upto_split1)
  qed
  from count_pair_valid [OF v(1), of open_char close_char] obtain r where
    r: "count_pair open_char close_char lines start stop = Inr r"
       "count r = range_net open_char close_char lines [start..stop - 1]" by blast
  from count_pair_valid [OF v(2), of open_char close_char] obtain r1 where
    r1: "count_pair open_char close_char lines start mid = Inr r1"
        "count r1 = range_net open_char close_char lines [start..mid - 1]" by blast
  from count_pair_valid [OF v(3), of open_char close_char] obtain r2 where
    r2: "count_pair open_char close_char lines mid stop = Inr r2"
        "count r2 = range_net open_char close_char lines [mid..stop - 1]" by blast
  have "count r = count r1 + count r2"
    using r(2) r1(2) r2(2) by (simp add: split range_net_append)
  with r(1) r1(1) r2(1) show ?thesis by blast
qed

theorem net_additive_witness:
  "(0::int) \<le> 0 \<and> (0::int) \<le> 1 \<and> (1::int) \<le> 3 \<and> 3 \<le> int (length [''a('', ''b)'', ''c('']) \<and>
   count_pair (CHR ''('') (CHR '')'') [''a('', ''b)'', ''c(''] 0 1 = Inr \<lparr>count = 1, min_count = 0\<rparr> \<and>
   count_pair (CHR ''('') (CHR '')'') [''a('', ''b)'', ''c(''] 1 3 = Inr \<lparr>count = 0, min_count = - 1\<rparr> \<and>
   (\<exists>r r1 r2. count_pair (CHR ''('') (CHR '')'') [''a('', ''b)'', ''c(''] 0 3 = Inr r \<and>
              count_pair (CHR ''('') (CHR '')'') [''a('', ''b)'', ''c(''] 0 1 = Inr r1 \<and>
              count_pair (CHR ''('') (CHR '')'') [''a('', ''b)'', ''c(''] 1 3 = Inr r2 \<and>
              count r = count r1 + count r2)"
proof -
  have c: "count_pair (CHR ''('') (CHR '')'') [''a('', ''b)'', ''c(''] 0 1 = Inr \<lparr>count = 1, min_count = 0\<rparr>"
    "count_pair (CHR ''('') (CHR '')'') [''a('', ''b)'', ''c(''] 1 3 = Inr \<lparr>count = 0, min_count = - 1\<rparr>"
    by code_simp+
  show ?thesis
    using c net_additive [of 0 1 3 "[''a('', ''b)'', ''c('']" "CHR ''(''" "CHR '')''"] by simp
qed

subsection \<open>The two nets of \<^verbatim>\<open>count_balance.py\<close>\<close>

lemma net_lines_scan_lines:
  "net_lines oc cc lines idxs (count s) =
     (case scan_lines oc cc lines idxs s of Inl e \<Rightarrow> Inl e | Inr r \<Rightarrow> Inr (count r))"
proof (induction idxs arbitrary: s)
  case Nil
  show ?case by simp
next
  case (Cons idx idxs)
  show ?case
  proof (cases "line_at lines idx")
    case (Inl e)
    then show ?thesis by simp
  next
    case (Inr line)
    have "net_lines oc cc lines (idx # idxs) (count s) =
            net_lines oc cc lines idxs (count (scan_chars oc cc line s))"
      using Inr by (simp add: count_scan_chars)
    also have "\<dots> = (case scan_lines oc cc lines idxs (scan_chars oc cc line s) of
                        Inl e \<Rightarrow> Inl e | Inr r \<Rightarrow> Inr (count r))"
      by (rule Cons.IH)
    finally show ?thesis using Inr by simp
  qed
qed

text \<open>
  C7, as the script has it. \<^verbatim>\<open>count_balance.py\<close> keeps one counter for each pair and
  no minimum. For every document and range it returns, for each of its two pairs, exactly
  the net that the scan of that pair alone returns on the same document and range, and it
  fails with \<open>IndexError\<close> exactly when those scans fail.
\<close>

theorem count_balance_nets:
  "count_balance lines start stop =
     (case count_parens lines start stop of
        Inl e \<Rightarrow> Inl e
      | Inr p \<Rightarrow>
          (case count_curlies lines start stop of
             Inl e \<Rightarrow> Inl e
           | Inr c \<Rightarrow> Inr (count p, count c)))"
proof -
  have "net_lines oc cc lines (py_range start stop) 0 =
          (case count_pair oc cc lines start stop of Inl e \<Rightarrow> Inl e | Inr r \<Rightarrow> Inr (count r))"
    for oc cc
    using net_lines_scan_lines [of oc cc lines "py_range start stop" "\<lparr>count = 0, min_count = 0\<rparr>"]
    by (simp add: count_pair_def)
  then show ?thesis
    by (simp add: count_balance_def count_parens_def count_curlies_def split: sum.splits)
qed

text \<open>
  The result of \<^verbatim>\<open>count_balance.py\<close> is not the whole result of the single scans: the
  documents \<open>)(\<close> and \<open>()\<close> give the same two nets, and minimum \<open>-1\<close> against \<open>0\<close> in
  \<^verbatim>\<open>count_parens.py\<close>.
\<close>

theorem count_balance_minimum_counterexample:
  "count_balance ['')(''] 0 1 = Inr (0, 0) \<and>
   count_balance [''()''] 0 1 = Inr (0, 0) \<and>
   count_parens ['')(''] 0 1 = Inr \<lparr>count = 0, min_count = - 1\<rparr> \<and>
   count_parens [''()''] 0 1 = Inr \<lparr>count = 0, min_count = 0\<rparr>"
  by code_simp

subsection \<open>Ranges outside the document\<close>








subsection \<open>The reverse scan\<close>

lemma find_chars_walk:
  "1 \<le> n \<Longrightarrow>
   counter_walk oc cc (map (Pair idx) chs @ rest) n =
     (case find_chars oc cc chs n of Found \<Rightarrow> Some idx | Scanning n' \<Rightarrow> counter_walk oc cc rest n')"
  by (induction chs arbitrary: n) (simp_all add: Let_def)

lemma find_chars_counter:
  "1 \<le> n \<Longrightarrow> find_chars oc cc chs n = Scanning n' \<Longrightarrow>
   1 \<le> n' \<and> n' = n - net_chars oc cc chs 0"
proof (induction chs arbitrary: n)
  case Nil
  then show ?case by simp
next
  case (Cons ch chs)
  let ?m = "if ch = oc then n - 1 else if ch = cc then n + 1 else n"
  from Cons.prems have m: "1 \<le> ?m" "find_chars oc cc chs ?m = Scanning n'"
    by (auto split: if_splits)
  from Cons.IH [OF m] have "1 \<le> n'" "n' = ?m - net_chars oc cc chs 0" by simp_all
  moreover have "net_chars oc cc (ch # chs) 0 = net_char oc cc ch 0 + net_chars oc cc chs 0"
    using net_chars_shift [of oc cc chs "net_char oc cc ch 0"] by simp
  ultimately show ?case by (simp add: net_char_def)
qed

lemma find_lines_walk:
  "in_bounds lines idxs \<Longrightarrow> 1 \<le> n \<Longrightarrow>
   find_lines oc cc lines idxs n =
     Inr (counter_walk oc cc (concat (map (\<lambda>idx. map (Pair idx) (rev (lines ! nat idx))) idxs)) n)"
proof (induction idxs arbitrary: n)
  case Nil
  show ?case by simp
next
  case (Cons idx idxs)
  let ?line = "lines ! nat idx"
  from Cons.prems have inb: "in_bounds lines idxs" and at: "line_at lines idx = Inr ?line"
    by (simp_all add: in_bounds_Cons line_at_valid)
  show ?case
  proof (cases "find_chars oc cc (rev ?line) n")
    case Found
    then show ?thesis
      using at find_chars_walk [OF Cons.prems(2), of oc cc idx "rev ?line"] by simp
  next
    case (Scanning n')
    with Cons.prems(2) have "1 \<le> n'" by (simp add: find_chars_counter)
    from Cons.IH [OF inb this] show ?thesis
      using at Scanning find_chars_walk [OF Cons.prems(2), of oc cc idx "rev ?line"] by simp
  qed
qed

text \<open>
  C2. For every document, valid range and delimiter pair, \<open>find_unmatched_open\<close> returns,
  and what it returns is the answer of the counter walk: lines from \<open>end - 1\<close> down to
  \<open>start\<close>, the characters of each line in reverse, a counter that starts at 1, goes down
  at the open delimiter and up at the close delimiter, \<open>Some\<close> of the line index at the
  first point where the counter is 0, and \<open>None\<close> if it is never 0.
\<close>

theorem find_unmatched_open_walk:
  assumes "valid_range lines start stop"
  shows "find_unmatched_open open_char close_char lines start stop =
           Inr (spec_find_unmatched_open open_char close_char lines start stop)"
proof -
  from assms have "in_bounds lines (rev [start..stop - 1])"
    by (simp add: valid_range_def in_bounds_upto in_bounds_rev)
  from find_lines_walk [OF this, of 1 open_char close_char] show ?thesis
    by (simp add: find_unmatched_open_def spec_find_unmatched_open_def py_range_down_def
        scan_order_def)
qed

theorem find_unmatched_open_walk_witness:
  "valid_range [''f {'', ''{ x }'', ''y''] 0 3 \<and>
   spec_find_unmatched_open (CHR ''{'') (CHR ''}'') [''f {'', ''{ x }'', ''y''] 0 3 = Some 0 \<and>
   find_unmatched_open (CHR ''{'') (CHR ''}'') [''f {'', ''{ x }'', ''y''] 0 3 = Inr (Some 0)"
proof -
  have v: "valid_range [''f {'', ''{ x }'', ''y''] 0 3"
    by (simp add: valid_range_def)
  have s: "spec_find_unmatched_open (CHR ''{'') (CHR ''}'') [''f {'', ''{ x }'', ''y''] 0 3 = Some 0"
    by code_simp
  show ?thesis
    using v s find_unmatched_open_walk [OF v, of "CHR ''{''" "CHR ''}''"] by simp
qed

subsection \<open>The line that the reverse scan reports\<close>

lemma find_lines_found:
  "in_bounds lines idxs \<Longrightarrow> 1 \<le> n \<Longrightarrow> find_lines oc cc lines idxs n = Inr (Some L) \<Longrightarrow>
   \<exists>pre post. idxs = pre @ L # post \<and> range_net oc cc lines pre \<le> n - 1"
proof (induction idxs arbitrary: n)
  case Nil
  then show ?case by simp
next
  case (Cons idx idxs)
  let ?line = "lines ! nat idx"
  from Cons.prems(1) have inb: "in_bounds lines idxs" and at: "line_at lines idx = Inr ?line"
    by (simp_all add: in_bounds_Cons line_at_valid)
  show ?case
  proof (cases "find_chars oc cc (rev ?line) n")
    case Found
    with Cons.prems(3) at have "idx = L" by simp
    then have "idx # idxs = [] @ L # idxs" by simp
    moreover have "range_net oc cc lines [] \<le> n - 1"
      using Cons.prems(2) by (simp add: range_net_def)
    ultimately show ?thesis by blast
  next
    case (Scanning n')
    from find_chars_counter [OF Cons.prems(2) Scanning]
    have n': "1 \<le> n'" "n' = n - net_chars oc cc ?line 0"
      by (simp_all add: net_chars_rev)
    from Cons.prems(3) at Scanning have "find_lines oc cc lines idxs n' = Inr (Some L)"
      by simp
    from Cons.IH [OF inb n'(1) this] obtain pre post where
      p: "idxs = pre @ L # post" "range_net oc cc lines pre \<le> n' - 1"
      by blast
    have "idx # idxs = (idx # pre) @ L # post"
      using p(1) by simp
    moreover have "range_net oc cc lines (idx # pre) \<le> n - 1"
      using p(2) n'(2) by (simp add: range_net_def)
    ultimately show ?thesis by blast
  qed
qed

lemma found_in_range:
  assumes "valid_range lines start stop"
    and "find_unmatched_open oc cc lines start stop = Inr (Some L)"
  shows "start \<le> L \<and> L < stop \<and> range_net oc cc lines [L + 1..stop - 1] \<le> 0"
proof -
  from assms(1) have "in_bounds lines (rev [start..stop - 1])"
    by (simp add: valid_range_def in_bounds_upto in_bounds_rev)
  from find_lines_found [OF this, of 1 oc cc L] assms(2) obtain pre post where
    p: "rev [start..stop - 1] = pre @ L # post" "range_net oc cc lines pre \<le> 0"
    by (auto simp: find_unmatched_open_def py_range_down_def)
  from p(1) have up: "[start..stop - 1] = rev post @ L # rev pre"
    by (simp add: rev_swap)
  then have "L \<in> set [start..stop - 1]" by simp
  then have L: "start \<le> L" "L \<le> stop - 1" by simp_all
  then have "[start..stop - 1] = [start..L - 1] @ L # [L + 1..stop - 1]"
    by (rule upto_split3)
  with up have "[start..L - 1] @ L # [L + 1..stop - 1] = rev post @ L # rev pre" by simp
  moreover have "L \<notin> set [start..L - 1]" "L \<notin> set [L + 1..stop - 1]" by simp_all
  ultimately have "[L + 1..stop - 1] = rev pre"
    by (simp add: append_Cons_eq_iff)
  then have "range_net oc cc lines [L + 1..stop - 1] = range_net oc cc lines pre"
    by (simp add: range_net_rev)
  with p(2) L show ?thesis by simp
qed

text \<open>
  C3, as the script has it. For every document, valid range and delimiter pair with net
  exactly 1 over the range: if \<open>find_unmatched_open\<close> returns the line index \<open>L\<close>, then
  \<open>L\<close> is a line of the range and \<open>count_pair\<close> on \<open>(start, L + 1)\<close> returns a net of
  at least 1.
\<close>

theorem unmatched_prefix_net:
  assumes "valid_range lines start stop"
    and "count_pair open_char close_char lines start stop = Inr r"
    and "count r = 1"
    and "find_unmatched_open open_char close_char lines start stop = Inr (Some L)"
  shows "start \<le> L \<and> L < stop \<and>
         (\<exists>r1. count_pair open_char close_char lines start (L + 1) = Inr r1 \<and> 1 \<le> count r1)"
proof -
  from found_in_range [OF assms(1) assms(4)]
  have L: "start \<le> L" "L < stop"
    and after: "range_net open_char close_char lines [L + 1..stop - 1] \<le> 0"
    by simp_all
  from assms(1) L have v: "valid_range lines start (L + 1)"
    by (simp add: valid_range_def)
  from count_pair_valid [OF v, of open_char close_char] obtain r1 where
    r1: "count_pair open_char close_char lines start (L + 1) = Inr r1"
        "count r1 = range_net open_char close_char lines [start..L]"
    by auto
  from count_pair_valid [OF assms(1), of open_char close_char] assms(2)
  have "count r = range_net open_char close_char lines [start..stop - 1]" by auto
  also from L have "[start..stop - 1] = [start..L] @ [L + 1..stop - 1]"
    by (intro upto_split2) simp_all
  finally have "count r = count r1 + range_net open_char close_char lines [L + 1..stop - 1]"
    using r1(2) by (simp add: range_net_append)
  with after assms(3) have "1 \<le> count r1" by simp
  with r1(1) L show ?thesis by blast
qed

theorem unmatched_prefix_net_witness:
  "valid_range [''{{'', ''}''] 0 2 \<and>
   count_pair (CHR ''{'') (CHR ''}'') [''{{'', ''}''] 0 2 = Inr \<lparr>count = 1, min_count = 0\<rparr> \<and>
   count \<lparr>count = 1, min_count = 0\<rparr> = 1 \<and>
   find_unmatched_open (CHR ''{'') (CHR ''}'') [''{{'', ''}''] 0 2 = Inr (Some 0) \<and>
   (\<exists>r1. count_pair (CHR ''{'') (CHR ''}'') [''{{'', ''}''] 0 (0 + 1) = Inr r1 \<and> 1 \<le> count r1)"
proof -
  have v: "valid_range [''{{'', ''}''] 0 2"
    by (simp add: valid_range_def)
  have c: "count_pair (CHR ''{'') (CHR ''}'') [''{{'', ''}''] 0 2 = Inr \<lparr>count = 1, min_count = 0\<rparr>"
    by code_simp
  have n: "count \<lparr>count = 1, min_count = 0\<rparr> = 1"
    by simp
  have f: "find_unmatched_open (CHR ''{'') (CHR ''}'') [''{{'', ''}''] 0 2 = Inr (Some 0)"
    by code_simp
  from unmatched_prefix_net [OF v c n f] v c n f show ?thesis by blast
qed

text \<open>
  The net of \<open>(start, L + 1)\<close> need not be 1: in the document \<open>{{\<close>, \<open>}\<close> the net of
  the range \<open>(0, 2)\<close> is 1, the reverse scan stops in the line of index 0, and the net of
  \<open>(0, 1)\<close> is 2.
\<close>

theorem unmatched_prefix_net_counterexample:
  "count_pair (CHR ''{'') (CHR ''}'') [''{{'', ''}''] 0 2 = Inr \<lparr>count = 1, min_count = 0\<rparr> \<and>
   find_unmatched_open (CHR ''{'') (CHR ''}'') [''{{'', ''}''] 0 2 = Inr (Some 0) \<and>
   count_pair (CHR ''{'') (CHR ''}'') [''{{'', ''}''] 0 (0 + 1) = Inr \<lparr>count = 2, min_count = 0\<rparr>"
  by code_simp

end
